theory Spec2Isabelle
  imports Complex_Main
begin

section \<open>Data model of \<open>src/Auth.ts\<close>\<close>

text \<open>
  A JavaScript \<open>number\<close> is modelled as a rational: every finite double is one, and the
  token code only stores such numbers and compares them with \<open>>\<close>. \<open>NaN\<close> and the
  infinities are left out. A JavaScript string is a \<open>string\<close>; a field that may hold
  \<open>undefined\<close> is an \<open>option\<close>, with \<open>None\<close> for \<open>undefined\<close>.
\<close>

type_synonym number = rat

text \<open>
  The abstract class \<open>Service\<close>. \<open>accessToken\<close> is declared a string, but
  \<open>ensureAccessToken\<close> tests it against \<open>undefined\<close>, so the model lets it be absent.
\<close>

record Service =
  connected :: bool
  resource :: string
  accessToken :: "string option"
  refreshToken :: "string option"
  expiresAt :: number

definition disconnect :: "Service \<Rightarrow> Service" where
  "disconnect this =
     this\<lparr>connected := False,
          resource := '''',
          accessToken := Some '''',
          refreshToken := None,
          expiresAt := - 1\<rparr>"

subsection \<open>Resource normalisation\<close>

text \<open>
  \<open>s.indexOf(c, fromIndex)\<close> for a one-character search string: the index of the first
  occurrence of \<open>c\<close> at or after \<open>fromIndex\<close>, or \<open>-1\<close> when there is none (also when
  \<open>fromIndex\<close> is beyond the end). \<open>s.substr(0, n)\<close> for \<open>n \<ge> 0\<close> is the first \<open>n\<close>
  characters.
\<close>

definition indexOf :: "string \<Rightarrow> char \<Rightarrow> nat \<Rightarrow> int" where
  "indexOf s c fromIndex =
     (let rest = drop fromIndex s
      in if c \<in> set rest
         then int (fromIndex + length (takeWhile (\<lambda>x. x \<noteq> c) rest))
         else - 1)"

definition substr :: "string \<Rightarrow> nat \<Rightarrow> int \<Rightarrow> string" where
  "substr s start len = take (nat len) (drop start s)"

definition getResourceFromUrl :: "string \<Rightarrow> string" where
  "getResourceFromUrl url =
     (let pos = indexOf url (CHR ''/'') 8
      in if pos > - 1 then substr url 0 pos else url)"

subsection \<open>Token acquisition\<close>

text \<open>
  The JSON bodies of the two endpoints, as the interfaces \<open>Token\<close>, \<open>Error\<close> and
  \<open>DeviceCode\<close> declare them. \<open>Error\<close> wraps an object with the fields \<open>error\<close> and
  \<open>error_description\<close>, so \<open>json.error.error\<close> is \<open>error e\<close> for \<open>json = Error e\<close>.
\<close>

record Token =
  access_token :: string
  refresh_token :: string
  expires_on :: number

record ErrorInfo =
  error :: string
  error_description :: string

datatype Error = Error ErrorInfo

record DeviceCode =
  interval :: number
  device_code :: string
  message :: string

text \<open>
  The three requests the class issues, each with the values its request options are built
  from: the POST to the token endpoint with grant type \<open>refresh_token\<close> (resource, client
  id, refresh token), the GET to the device-code endpoint (resource, client id), and the
  POST to the token endpoint with grant type \<open>device_code\<close> (resource, client id, device
  code). The client id is the optional constructor argument \<open>appId\<close>.
\<close>

datatype request =
    RefreshTokenGrant string "string option" string
  | DeviceCodeGet string "string option"
  | DeviceCodeGrant string "string option" string

text \<open>
  What the network does with a request: it fulfils the promise of \<open>request.post\<close> or
  \<open>request.get\<close> with a JSON body, or rejects it. A rejection carries an \<open>Error\<close>, the
  shape the token endpoint answers with; the handlers that take it as \<open>any\<close> pass it on
  whole.
\<close>

datatype response =
    TokenJson Token
  | DeviceCodeJson DeviceCode
  | Failure Error

text \<open>
  The pair of callbacks given to \<open>then\<close> at each of the four places a request is made:
  the refresh branch of \<open>ensureAccessToken\<close>, its device-code branch (the callbacks
  close over \<open>resource\<close>), the timer callback, and \<open>getAccessToken\<close>.
\<close>

datatype continuation =
    OnRefresh
  | OnDeviceCode string
  | OnPoll
  | OnGetAccessToken

text \<open>
  A live timer made by \<open>setInterval\<close>: the \<open>interval\<close> of the device-code response in
  seconds (the timer fires every \<open>interval * 1000\<close> milliseconds) and the \<open>resource\<close> and
  \<open>deviceCode\<close> its callback closes over. The field \<open>interval\<close> of \<open>Auth\<close> is \<open>None\<close>
  when no timer is running: never set, or cleared by \<open>clearInterval\<close>.
\<close>

datatype timer = Timer number string string

record Auth =
  service :: Service
  appId :: "string option"
  interval :: "timer option"

text \<open>
  The promise an entry point returns, and the value \<open>reject\<close> is called with: the error
  code \<open>json.error.error\<close>, or the rejection of the request as it came.
\<close>

datatype reason = ErrorCode string | ErrorObject Error

datatype promise = Pending | Resolved string | Rejected reason

text \<open>
  One call of an entry point in progress: the \<open>Auth\<close> object, the promise returned to
  the caller, the requests that have not been answered yet with their callbacks, all
  requests issued so far in order, and the lines written with \<open>stdout.log\<close>. The model
  takes \<open>verbose = false\<close>, the default, so the only line is the message of the
  device-code response.
\<close>

record call = Auth +
  promise :: promise
  inflight :: "(request \<times> continuation) list"
  sent :: "request list"
  stdout :: "string list"

definition newPromise :: "Auth \<Rightarrow> call" where
  "newPromise this =
     \<lparr>service = service this, appId = appId this, interval = Auth.interval this,
      promise = Pending, inflight = [], sent = [], stdout = []\<rparr>"

text \<open>Settling a promise that is already settled does nothing.\<close>

definition resolve :: "string \<Rightarrow> call \<Rightarrow> call" where
  "resolve v c = (if promise c = Pending then c\<lparr>promise := Resolved v\<rparr> else c)"

definition reject :: "reason \<Rightarrow> call \<Rightarrow> call" where
  "reject err c = (if promise c = Pending then c\<lparr>promise := Rejected err\<rparr> else c)"

definition clearInterval :: "call \<Rightarrow> call" where
  "clearInterval c = c\<lparr>interval := None\<rparr>"

definition stdout_log :: "string \<Rightarrow> call \<Rightarrow> call" where
  "stdout_log line c = c\<lparr>stdout := stdout c @ [line]\<rparr>"

definition post :: "request \<Rightarrow> continuation \<Rightarrow> call \<Rightarrow> call" where
  "post r k c = c\<lparr>inflight := inflight c @ [(r, k)], sent := sent c @ [r]\<rparr>"

text \<open>\<open>if (this.service.refreshToken)\<close>: a string is truthy when it is not empty.\<close>

definition truthy :: "string option \<Rightarrow> bool" where
  "truthy v = (case v of None \<Rightarrow> False | Some s \<Rightarrow> s \<noteq> [])"

definition storeToken :: "Token \<Rightarrow> call \<Rightarrow> call" where
  "storeToken json c =
     c\<lparr>service := (service c)\<lparr>accessToken := Some (access_token json),
                                refreshToken := Some (refresh_token json),
                                expiresAt := expires_on json\<rparr>\<rparr>"

text \<open>
  \<open>ensureAccessToken(resource, stdout)\<close> up to the point where the executor of the
  promise returns; \<open>now\<close> is \<open>new Date().getTime() / 1000\<close>.
\<close>

definition ensureAccessToken :: "string \<Rightarrow> number \<Rightarrow> Auth \<Rightarrow> call" where
  "ensureAccessToken res now this =
     (let c = newPromise this in
      if expiresAt (service this) > now \<and> accessToken (service this) \<noteq> None
      then resolve (the (accessToken (service this))) c
      else if truthy (refreshToken (service this))
      then post (RefreshTokenGrant res (appId this) (the (refreshToken (service this))))
             OnRefresh c
      else post (DeviceCodeGet res (appId this)) (OnDeviceCode res) c)"

definition getAccessToken :: "string \<Rightarrow> string \<Rightarrow> Auth \<Rightarrow> call" where
  "getAccessToken res refreshToken' this =
     post (RefreshTokenGrant res (appId this) refreshToken') OnGetAccessToken
       (newPromise this)"

text \<open>
  The callbacks. An answer of the wrong shape for the request (a device-code body for a
  token request, or the reverse) is not an event of the system: \<open>None\<close>. In the timer
  callback the promise is resolved with \<open>this.service.accessToken\<close>, which has just been
  set to \<open>json.access_token\<close>.
\<close>

fun respond :: "continuation \<Rightarrow> response \<Rightarrow> call \<Rightarrow> call option" where
  "respond OnRefresh (TokenJson json) c =
     Some (resolve (access_token json) (storeToken json c))"
| "respond OnRefresh (Failure (Error e)) c =
     Some (reject (ErrorCode (error e)) c)"
| "respond (OnDeviceCode res) (DeviceCodeJson json) c =
     Some ((stdout_log (message json) c)
             \<lparr>interval := Some (Timer (DeviceCode.interval json) res (device_code json))\<rparr>)"
| "respond (OnDeviceCode res) (Failure err) c =
     Some (reject (ErrorObject err) c)"
| "respond OnPoll (TokenJson json) c =
     Some (resolve (access_token json) (clearInterval (storeToken json c)))"
| "respond OnPoll (Failure (Error rej2)) c =
     (if error rej2 \<noteq> ''authorization_pending''
      then Some (reject (ErrorCode (error rej2)) (clearInterval c))
      else Some c)"
| "respond OnGetAccessToken (TokenJson json) c =
     Some (resolve (access_token json) c)"
| "respond OnGetAccessToken (Failure err) c =
     Some (reject (ErrorObject err) c)"
| "respond _ _ c = None"

text \<open>
  The events that drive a call: the timer fires, which runs the timer callback and
  issues one polling request, or the request at position \<open>i\<close> of the unanswered ones is
  answered, which runs its callback. Answers may come in any order, and the timer may
  fire while earlier polling requests are unanswered, as with \<open>setInterval\<close>. An event
  that cannot happen (no timer running, no such request) gives \<open>None\<close>.

  A \<open>call\<close> follows one call of an entry point, with one promise and the one timer that
  \<open>this.interval\<close> refers to. That is the behaviour of the class when no timer started by
  an earlier call is running on the object, \<open>interval this = None\<close> at the call. In the
  source the timer callback and the callbacks of its requests close over the \<open>resolve\<close>
  and \<open>reject\<close> of the call that started the timer, and \<open>this.interval\<close> keeps only the
  handle of the timer started last; with an earlier timer still polling, its answers
  settle the earlier promise and \<open>clearInterval(this.interval)\<close> may cancel another
  timer than the one that polled. Two flows on one object are outside this model, and
  the statements about events below are made for calls on an object with
  \<open>interval this = None\<close>.
\<close>

datatype event = Tick | Response nat response

fun step :: "event \<Rightarrow> call \<Rightarrow> call option" where
  "step Tick c =
     (case interval c of
        None \<Rightarrow> None
      | Some (Timer seconds res deviceCode) \<Rightarrow>
          Some (post (DeviceCodeGrant res (appId c) deviceCode) OnPoll c))"
| "step (Response i r) c =
     (if i < length (inflight c)
      then respond (snd (inflight c ! i)) r
             (c\<lparr>inflight := take i (inflight c) @ drop (Suc i) (inflight c)\<rparr>)
      else None)"

fun run :: "event list \<Rightarrow> call \<Rightarrow> call option" where
  "run [] c = Some c"
| "run (e # es) c = (case step e c of None \<Rightarrow> None | Some c' \<Rightarrow> run es c')"

subsection \<open>Notions used in the proofs\<close>

text \<open>
  A continuation starts a timer when it is the one of the device-code request. A call is
  \<open>quiet\<close> when no timer is running and no unanswered request can start one: from then
  on no request is issued. It is \<open>detached\<close> when, moreover, every unanswered request
  was made by \<open>getAccessToken\<close>. A call is a \<open>single_flow\<close> when its unanswered requests
  are all polling requests, or there is at most one of them and no timer is running. Its
  timer is live (\<open>timer_live\<close>) when, as long as the promise is pending and a polling
  request is unanswered, the timer is running. An event is a \<open>token_answer\<close> when it
  answers a request with a token.
\<close>

fun starts_timer :: "continuation \<Rightarrow> bool" where
  "starts_timer (OnDeviceCode res) = True"
| "starts_timer k = False"

definition quiet :: "call \<Rightarrow> bool" where
  "quiet c = (interval c = None \<and> list_all (\<lambda>p. \<not> starts_timer (snd p)) (inflight c))"

definition detached :: "call \<Rightarrow> bool" where
  "detached c =
     (interval c = None \<and> list_all (\<lambda>p. snd p = OnGetAccessToken) (inflight c))"


definition timer_live :: "call \<Rightarrow> bool" where
  "timer_live c =
     (if promise c = Pending \<and> list_ex (\<lambda>p. snd p = OnPoll) (inflight c)
      then interval c \<noteq> None else True)"


subsection \<open>Example data\<close>

text \<open>
  A connected store whose access token expires at time 100, an \<open>Auth\<close> object around a
  store with no timer running, the answers of the endpoints in the scenarios of the
  specification, and the call of \<open>ensureAccessToken\<close> on a disconnected store after the
  device-code answer and the first tick of the timer.
\<close>

definition example_store :: Service where
  "example_store =
     \<lparr>connected = True, resource = ''https://contoso.sharepoint.com'',
      accessToken = Some ''AT0'', refreshToken = Some ''RT1'', expiresAt = 100\<rparr>"

definition example_auth :: "Service \<Rightarrow> Auth" where
  "example_auth s = \<lparr>service = s, appId = Some ''app'', interval = None\<rparr>"

definition example_token :: Token where
  "example_token = \<lparr>access_token = ''AT1'', refresh_token = ''RT2'', expires_on = 4600\<rparr>"

definition example_device_code :: DeviceCode where
  "example_device_code =
     \<lparr>DeviceCode.interval = 5, device_code = ''abc'', message = ''go to url, enter XYZ''\<rparr>"

definition invalid_grant :: ErrorInfo where
  "invalid_grant = \<lparr>error = ''invalid_grant'', error_description = ''token revoked''\<rparr>"

definition authorization_pending :: ErrorInfo where
  "authorization_pending =
     \<lparr>error = ''authorization_pending'', error_description = ''waiting for the user''\<rparr>"

definition code_expired :: ErrorInfo where
  "code_expired = \<lparr>error = ''code_expired'', error_description = ''too late''\<rparr>"

definition example_polling :: call where
  "example_polling =
     \<lparr>service = disconnect example_store, appId = Some ''app'',
      interval = Some (Timer 5 ''https://graph.example.com'' ''abc''),
      promise = Pending,
      inflight = [(DeviceCodeGrant ''https://graph.example.com'' (Some ''app'') ''abc'', OnPoll)],
      sent = [DeviceCodeGet ''https://graph.example.com'' (Some ''app''),
              DeviceCodeGrant ''https://graph.example.com'' (Some ''app'') ''abc''],
      stdout = [''go to url, enter XYZ'']\<rparr>"

section \<open>Properties\<close>

lemmas call_defs = newPromise_def resolve_def reject_def clearInterval_def stdout_log_def
  post_def storeToken_def

lemmas example_defs = example_store_def example_auth_def example_token_def
  example_device_code_def invalid_grant_def authorization_pending_def code_expired_def
  example_polling_def

subsection \<open>disconnect\<close>

text \<open>
  Claim C5. Whatever the store held before, after \<open>disconnect()\<close> it is exactly
  \<open>connected = false\<close>, \<open>resource = ''\<close>, \<open>accessToken = ''\<close>,
  \<open>refreshToken = undefined\<close>, \<open>expiresAt = -1\<close>; hence disconnecting twice is the same
  as disconnecting once.
\<close>

theorem disconnect_resets:
  "disconnect s = \<lparr>connected = False, resource = '''', accessToken = Some '''',
                    refreshToken = None, expiresAt = - 1\<rparr>
   \<and> disconnect (disconnect s) = disconnect s"
  by (simp add: disconnect_def)

subsection \<open>getResourceFromUrl\<close>

text \<open>
  The function keeps the first eight characters and, of the rest, everything before the
  first slash.
\<close>

lemma getResourceFromUrl_takeWhile:
  "getResourceFromUrl url = take 8 url @ takeWhile (\<lambda>x. x \<noteq> CHR ''/'') (drop 8 url)"
proof (cases "CHR ''/'' \<in> set (drop 8 url)")
  case True
  have "nat (8 + int n) = 8 + n" for n by simp
  moreover have "take (length (takeWhile P xs)) xs = takeWhile P xs" for P and xs :: string
    by (simp add: takeWhile_eq_take [symmetric])
  ultimately show ?thesis using True
    by (simp add: getResourceFromUrl_def indexOf_def substr_def Let_def take_add)
next
  case False
  then have whole: "takeWhile (\<lambda>x. x \<noteq> CHR ''/'') (drop 8 url) = drop 8 url"
    by (auto simp: takeWhile_eq_all_conv)
  show ?thesis unfolding whole using False
    by (simp add: getResourceFromUrl_def indexOf_def Let_def)
qed

lemma no_slash_after_scheme:
  "CHR ''/'' \<notin> set (drop 8 (getResourceFromUrl s))"
proof -
  have "drop 8 (getResourceFromUrl s) = takeWhile (\<lambda>x. x \<noteq> CHR ''/'') (drop 8 s)"
    by (cases "8 \<le> length s") (simp_all add: getResourceFromUrl_takeWhile min_def)
  then show ?thesis by (auto dest: set_takeWhileD)
qed

lemma getResourceFromUrl_fixed:
  "CHR ''/'' \<notin> set (drop 8 s) \<Longrightarrow> getResourceFromUrl s = s"
  by (simp add: getResourceFromUrl_def indexOf_def Let_def)

text \<open>
  Claim C8. For a full HTTPS URL, that is \<open>https://\<close> followed by a host without a
  slash and then either nothing or a path that starts with a slash,
  \<open>getResourceFromUrl\<close> returns scheme and host: it cuts at the first slash after the
  scheme and returns the input as it is when there is none. The two URLs of the
  specification are the instances below.
\<close>

theorem getResourceFromUrl_origin:
  assumes "CHR ''/'' \<notin> set host" and "path = [] \<or> hd path = CHR ''/''"
  shows "getResourceFromUrl (''https://'' @ host @ path) = ''https://'' @ host"
proof -
  have "takeWhile (\<lambda>x. x \<noteq> CHR ''/'') (host @ path) = host"
    using assms by (cases path) (auto simp: takeWhile_eq_all_conv takeWhile_tail)
  then show ?thesis by (simp add: getResourceFromUrl_takeWhile)
qed

theorem getResourceFromUrl_origin_witness:
  "getResourceFromUrl ''https://contoso.sharepoint.com/sites/x''
     = ''https://contoso.sharepoint.com''
   \<and> getResourceFromUrl ''https://contoso.sharepoint.com''
     = ''https://contoso.sharepoint.com''"
  using getResourceFromUrl_origin [of "''contoso.sharepoint.com''" "''/sites/x''"]
    getResourceFromUrl_origin [of "''contoso.sharepoint.com''" "[]"]
  by simp

text \<open>
  Claim C10. \<open>getResourceFromUrl\<close> is idempotent on every string. The search starts at
  index 8, so the first eight characters are kept whatever they are, and the result has
  no slash at index 8 or later.
\<close>

theorem getResourceFromUrl_idempotent:
  "getResourceFromUrl (getResourceFromUrl s) = getResourceFromUrl s
   \<and> take 8 (getResourceFromUrl s) = take 8 s
   \<and> CHR ''/'' \<notin> set (drop 8 (getResourceFromUrl s))"
proof -
  have "take 8 (getResourceFromUrl s) = take 8 s"
    by (cases "8 \<le> length s") (simp_all add: getResourceFromUrl_takeWhile min_def)
  then show ?thesis
    using no_slash_after_scheme [of s] getResourceFromUrl_fixed [of "getResourceFromUrl s"]
    by simp
qed

subsection \<open>What one event can change\<close>

text \<open>
  A callback never issues a request and never touches \<open>connected\<close>, \<open>resource\<close> or
  \<open>appId\<close>; only the timer callback issues one. While the promise is pending the store
  is the one the call started with: the two callbacks that write the store resolve the
  promise in the same turn.
\<close>

lemma respond_frame:
  assumes "respond k r c = Some c'"
  shows "connected (service c') = connected (service c)
       \<and> resource (service c') = resource (service c)
       \<and> sent c' = sent c \<and> inflight c' = inflight c \<and> appId c' = appId c"
  using assms
  by (cases "(k, r, c)" rule: respond.cases) (auto simp: call_defs split: if_splits)

lemma respond_pending:
  assumes "respond k r c = Some c'" and "promise c' = Pending"
  shows "promise c = Pending \<and> service c' = service c"
  using assms
  by (cases "(k, r, c)" rule: respond.cases) (auto simp: call_defs split: if_splits)

lemma step_pending:
  assumes "step e c = Some c'" and "promise c' = Pending"
  shows "promise c = Pending \<and> service c' = service c"
proof (cases e)
  case Tick
  with assms show ?thesis
    by (auto simp: call_defs split: option.splits timer.splits)
next
  case (Response i r)
  with assms show ?thesis
    by (auto split: if_splits dest!: respond_pending)
qed

lemma run_pending:
  "run evs c = Some c' \<Longrightarrow> promise c' = Pending \<Longrightarrow> promise c = Pending \<and> service c' = service c"
proof (induction evs arbitrary: c)
  case Nil
  then show ?case by simp
next
  case (Cons e es)
  then obtain d where d: "step e c = Some d" "run es d = Some c'"
    by (auto split: option.splits)
  from Cons.IH [OF d(2) Cons.prems(2)] step_pending [OF d(1)] show ?case by simp
qed



lemma step_frame:
  assumes "step e c = Some c'"
  shows "connected (service c') = connected (service c)
       \<and> resource (service c') = resource (service c) \<and> appId c' = appId c"
proof (cases e)
  case Tick
  with assms show ?thesis
    by (auto simp: call_defs split: option.splits timer.splits)
next
  case (Response i r)
  with assms show ?thesis
    by (auto split: if_splits dest!: respond_frame)
qed

lemma run_frame:
  "run evs c = Some c' \<Longrightarrow>
     connected (service c') = connected (service c)
   \<and> resource (service c') = resource (service c) \<and> appId c' = appId c"
proof (induction evs arbitrary: c)
  case Nil
  then show ?case by simp
next
  case (Cons e es)
  then obtain d where d: "step e c = Some d" "run es d = Some c'"
    by (auto split: option.splits)
  from Cons.IH [OF d(2)] step_frame [OF d(1)] show ?case by simp
qed

lemma ensureAccessToken_start:
  "service (ensureAccessToken res now this) = service this
   \<and> appId (ensureAccessToken res now this) = appId this
   \<and> interval (ensureAccessToken res now this) = interval this"
  by (simp add: ensureAccessToken_def Let_def call_defs)

text \<open>
  In a quiet call an event issues no request, leaves the call quiet, and answers one of
  the unanswered requests.
\<close>

lemma respond_quiet:
  assumes "respond k r c = Some c'" and "\<not> starts_timer k"
  shows "interval c' = None \<or> interval c' = interval c"
  using assms
  by (cases "(k, r, c)" rule: respond.cases) (auto simp: call_defs split: if_splits)

lemma list_all_remove:
  "list_all P xs \<Longrightarrow> list_all P (take i xs @ drop (Suc i) xs)"
  by (auto simp: list_all_iff dest: in_set_takeD in_set_dropD)

lemma step_quiet:
  assumes "step e c = Some c'" and "quiet c"
  shows "quiet c' \<and> sent c' = sent c \<and> length (inflight c') < length (inflight c)"
proof (cases e)
  case Tick
  with assms show ?thesis by (simp add: quiet_def)
next
  case (Response i r)
  with assms have i: "i < length (inflight c)"
    and r: "respond (snd (inflight c ! i)) r
              (c\<lparr>inflight := take i (inflight c) @ drop (Suc i) (inflight c)\<rparr>) = Some c'"
    by (auto split: if_splits)
  from assms(2) i have "\<not> starts_timer (snd (inflight c ! i))"
    by (simp add: quiet_def list_all_length)
  with respond_quiet [OF r] assms(2) have timer: "interval c' = None"
    by (auto simp: quiet_def)
  from respond_frame [OF r]
  have rest: "inflight c' = take i (inflight c) @ drop (Suc i) (inflight c)"
    and same: "sent c' = sent c"
    by simp_all
  from assms(2) have "list_all (\<lambda>p. \<not> starts_timer (snd p)) (inflight c')"
    unfolding rest quiet_def by (intro list_all_remove) simp
  moreover from i have "length (inflight c') < length (inflight c)"
    unfolding rest by simp
  ultimately show ?thesis using timer same by (simp add: quiet_def)
qed

lemma run_quiet:
  "run evs c = Some c' \<Longrightarrow> quiet c \<Longrightarrow> quiet c' \<and> sent c' = sent c"
proof (induction evs arbitrary: c)
  case Nil
  then show ?case by simp
next
  case (Cons e es)
  then obtain d where d: "step e c = Some d" "run es d = Some c'"
    by (auto split: option.splits)
  from step_quiet [OF d(1) Cons.prems(2)] Cons.IH [OF d(2)] show ?case by simp
qed

text \<open>
  On an object with no timer running a call is a single flow and stays one, and its
  timer stays live. An event that is not a token answer leaves the store alone.
\<close>

lemma respond_pending_timer:
  assumes "respond k r c = Some c'" and "promise c' = Pending"
  shows "interval c' = interval c \<or> interval c' \<noteq> None"
  using assms
  by (cases "(k, r, c)" rule: respond.cases) (auto simp: call_defs split: if_splits)

lemma list_ex_remove:
  "list_ex P (take i xs @ drop (Suc i) xs) \<Longrightarrow> list_ex P xs"
  by (auto simp: list_ex_iff dest: in_set_takeD in_set_dropD)

lemma step_timer_live:
  assumes "step e c = Some c'" and "timer_live c"
  shows "timer_live c'"
proof (cases e)
  case Tick
  with assms(1) show ?thesis
    by (auto simp: timer_live_def call_defs split: option.splits timer.splits)
next
  case (Response i r)
  let ?rest = "take i (inflight c) @ drop (Suc i) (inflight c)"
  from Response assms(1) have r: "respond (snd (inflight c ! i)) r (c\<lparr>inflight := ?rest\<rparr>) = Some c'"
    by (auto split: if_splits)
  show ?thesis
  proof (cases "promise c' = Pending \<and> list_ex (\<lambda>p. snd p = OnPoll) (inflight c')")
    case False
    then show ?thesis by (auto simp: timer_live_def)
  next
    case True
    with respond_pending [OF r] respond_frame [OF r]
    have p: "promise c = Pending" and rest: "list_ex (\<lambda>p. snd p = OnPoll) ?rest"
      by simp_all
    from rest have "list_ex (\<lambda>p. snd p = OnPoll) (inflight c)"
      by (rule list_ex_remove)
    with assms(2) p have "interval c \<noteq> None"
      by (simp add: timer_live_def)
    with respond_pending_timer [OF r] True show ?thesis
      by (auto simp: timer_live_def)
  qed
qed

lemma run_timer_live:
  "run evs c = Some c' \<Longrightarrow> timer_live c \<Longrightarrow> timer_live c'"
proof (induction evs arbitrary: c)
  case Nil
  then show ?case by simp
next
  case (Cons e es)
  then obtain d where d: "step e c = Some d" "run es d = Some c'"
    by (auto split: option.splits)
  from Cons.IH [OF d(2)] step_timer_live [OF d(1) Cons.prems(2)] show ?case by simp
qed

lemma ensureAccessToken_timer_live:
  "timer_live (ensureAccessToken res now this)"
  by (simp add: timer_live_def ensureAccessToken_def Let_def call_defs)









subsection \<open>ensureAccessToken\<close>

text \<open>
  Claim C1. For every resource and every store whose \<open>accessToken\<close> is a non-empty
  string and whose \<open>expiresAt\<close> is greater than the current time, the call resolves at
  once with the cached token: the promise is resolved with it, no request has been
  issued, none is awaiting an answer, and the store and the timer field are as before.
  When no timer of an earlier call is running, no event can follow, so no request is
  issued later either.
\<close>

theorem ensureAccessToken_cached:
  assumes "accessToken (service this) = Some token" and "token \<noteq> []"
    and "expiresAt (service this) > now"
  shows "ensureAccessToken res now this = (newPromise this)\<lparr>promise := Resolved token\<rparr>
       \<and> sent (ensureAccessToken res now this) = []
       \<and> inflight (ensureAccessToken res now this) = []
       \<and> (interval this = None \<longrightarrow> (\<forall>e. step e (ensureAccessToken res now this) = None))"
proof -
  have eq: "ensureAccessToken res now this = (newPromise this)\<lparr>promise := Resolved token\<rparr>"
    using assms by (simp add: ensureAccessToken_def Let_def call_defs)
  have "step e ((newPromise this)\<lparr>promise := Resolved token\<rparr>) = None"
    if "interval this = None" for e
    using that by (cases e) (simp_all add: newPromise_def)
  with eq show ?thesis by (simp add: newPromise_def)
qed

theorem ensureAccessToken_cached_witness:
  "ensureAccessToken ''https://contoso.sharepoint.com'' 50 (example_auth example_store)
     = (newPromise (example_auth example_store))\<lparr>promise := Resolved ''AT0''\<rparr>
   \<and> sent (ensureAccessToken ''https://contoso.sharepoint.com'' 50
             (example_auth example_store)) = []
   \<and> step Tick (ensureAccessToken ''https://contoso.sharepoint.com'' 50
                  (example_auth example_store)) = None"
  using ensureAccessToken_cached [of "example_auth example_store" "''AT0''" 50
      "''https://contoso.sharepoint.com''"]
  by (simp add: example_auth_def example_store_def newPromise_def)

text \<open>
  Claim C2 as stated, for every store whose \<open>accessToken\<close> is empty or whose
  \<open>expiresAt\<close> is not after the current time, fails on a store with an empty access
  token that has not expired. The cached branch is guarded by
  \<open>accessToken !== undefined\<close>, not by the token being non-empty: at time 50, with the
  empty string as access token, expiry 100 and refresh token \<open>RT1\<close>, the call resolves
  with the empty string and issues no refresh-token exchange.
\<close>

theorem ensureAccessToken_empty_token_counterexample:
  "accessToken (example_store\<lparr>accessToken := Some ''''\<rparr>) = Some ''''
   \<and> refreshToken (example_store\<lparr>accessToken := Some ''''\<rparr>) = Some ''RT1''
   \<and> sent (ensureAccessToken ''R'' 50
             (example_auth (example_store\<lparr>accessToken := Some ''''\<rparr>))) = []
   \<and> promise (ensureAccessToken ''R'' 50
                (example_auth (example_store\<lparr>accessToken := Some ''''\<rparr>))) = Resolved ''''"
  by (simp add: example_defs ensureAccessToken_def Let_def call_defs)

text \<open>
  Claim C2, amended. For every store in which \<open>accessToken\<close> is undefined or
  \<open>expiresAt \<le> now\<close>, and \<open>refreshToken\<close> is a non-empty string, on an \<open>Auth\<close> object
  with no timer running: the call leaves the promise pending and issues one
  refresh-token exchange for the requested resource with the stored refresh token;
  whatever events follow, that request stays the only one ever issued (no device-code
  request, no polling request); and when it is answered with a token, the store's
  \<open>accessToken\<close>, \<open>refreshToken\<close> and \<open>expiresAt\<close> become the \<open>access_token\<close>,
  \<open>refresh_token\<close> and \<open>expires_on\<close> of the answer and the promise is resolved with
  that \<open>access_token\<close>.
\<close>

theorem ensureAccessToken_refresh:
  assumes "accessToken (service this) = None \<or> expiresAt (service this) \<le> now"
    and "refreshToken (service this) = Some rt" and "rt \<noteq> []"
    and "interval this = None"
  shows "promise (ensureAccessToken res now this) = Pending
       \<and> sent (ensureAccessToken res now this) = [RefreshTokenGrant res (appId this) rt]
       \<and> (\<forall>evs c. run evs (ensureAccessToken res now this) = Some c
             \<longrightarrow> sent c = [RefreshTokenGrant res (appId this) rt])
       \<and> (\<exists>c. run [Response 0 (TokenJson json)] (ensureAccessToken res now this) = Some c
             \<and> promise c = Resolved (access_token json)
             \<and> service c = (service this)\<lparr>accessToken := Some (access_token json),
                                           refreshToken := Some (refresh_token json),
                                           expiresAt := expires_on json\<rparr>)"
proof -
  let ?c0 = "ensureAccessToken res now this"
  have c0: "?c0 = post (RefreshTokenGrant res (appId this) rt) OnRefresh (newPromise this)"
    using assms(1-3) by (auto simp: ensureAccessToken_def Let_def truthy_def)
  have q: "quiet ?c0"
    using assms(4) by (simp add: c0 quiet_def call_defs)
  have s0: "sent ?c0 = [RefreshTokenGrant res (appId this) rt]"
    by (simp add: c0 call_defs)
  have "sent c = [RefreshTokenGrant res (appId this) rt]" if "run evs ?c0 = Some c" for evs c
    using run_quiet [OF that q] s0 by simp
  moreover have "promise ?c0 = Pending"
    by (simp add: c0 call_defs)
  moreover have "\<exists>c. run [Response 0 (TokenJson json)] ?c0 = Some c
             \<and> promise c = Resolved (access_token json)
             \<and> service c = (service this)\<lparr>accessToken := Some (access_token json),
                                           refreshToken := Some (refresh_token json),
                                           expiresAt := expires_on json\<rparr>"
    by (simp add: c0 call_defs)
  ultimately show ?thesis using s0 by blast
qed

theorem ensureAccessToken_refresh_witness:
  "promise (ensureAccessToken ''R'' 1000 (example_auth example_store)) = Pending
   \<and> sent (ensureAccessToken ''R'' 1000 (example_auth example_store))
       = [RefreshTokenGrant ''R'' (Some ''app'') ''RT1'']
   \<and> (\<exists>c. run [Response 0 (TokenJson example_token)]
               (ensureAccessToken ''R'' 1000 (example_auth example_store)) = Some c
          \<and> promise c = Resolved ''AT1''
          \<and> service c = example_store\<lparr>accessToken := Some ''AT1'',
                                         refreshToken := Some ''RT2'',
                                         expiresAt := 4600\<rparr>)"
  using ensureAccessToken_refresh [of "example_auth example_store" 1000 "''RT1''" "''R''"
      example_token]
  by (simp add: example_defs)




text \<open>
  Claim C9. In every state a call of \<open>ensureAccessToken\<close> can reach, and so at every
  successful resolution, \<open>connected\<close> and \<open>resource\<close> of the store are what they were
  before the call. The instance below is a first device-code authentication on a
  disconnected store: it succeeds and \<open>connected\<close> is still false.
\<close>

theorem ensureAccessToken_keeps_connection:
  assumes "run evs (ensureAccessToken res now this) = Some c"
  shows "connected (service c) = connected (service this)
       \<and> resource (service c) = resource (service this)"
  using run_frame [OF assms] by (simp add: ensureAccessToken_start)

theorem ensureAccessToken_keeps_connection_witness:
  "\<exists>c. run [Response 0 (DeviceCodeJson example_device_code), Tick,
            Response 0 (TokenJson example_token)]
          (ensureAccessToken ''https://graph.example.com'' 1000
             (example_auth (disconnect example_store))) = Some c
      \<and> promise c = Resolved ''AT1''
      \<and> accessToken (service c) = Some ''AT1''
      \<and> connected (service c) = False
      \<and> resource (service c) = ''''"
proof -
  let ?evs = "[Response 0 (DeviceCodeJson example_device_code), Tick,
            Response 0 (TokenJson example_token)]"
  let ?e = "ensureAccessToken ''https://graph.example.com'' 1000
             (example_auth (disconnect example_store))"
  obtain c where c: "run ?evs ?e = Some c" and p: "promise c = Resolved ''AT1''"
    and t: "accessToken (service c) = Some ''AT1''"
    by (simp add: example_defs disconnect_def ensureAccessToken_def Let_def call_defs
        truthy_def)
  from ensureAccessToken_keeps_connection [OF c] c p t show ?thesis
    by (simp add: example_defs disconnect_def)
qed

subsection \<open>Device-code polling\<close>

text \<open>
  Claim C4. Take a call of \<open>ensureAccessToken\<close> on an object with no timer running and
  any state it can reach in which a polling request is unanswered and the promise is
  pending. Then the timer of the call is running and the store is still the one before
  the call. If the request is rejected with the code \<open>authorization_pending\<close>, nothing
  changes but that the request is answered: the timer stays as it is, the promise stays
  pending, the store is untouched. If it is rejected with any other code, the timer is
  cleared and the promise is rejected with exactly that code. If it is fulfilled with a
  token, the store takes the three fields of the token, the timer is cleared and the
  promise is resolved with the new access token.
\<close>

theorem poll_response:
  assumes "interval this = None"
    and "run evs (ensureAccessToken res now this) = Some c"
    and "i < length (inflight c)" and "snd (inflight c ! i) = OnPoll"
    and "promise c = Pending"
  shows "interval c \<noteq> None
       \<and> (error e = ''authorization_pending'' \<longrightarrow>
            step (Response i (Failure (Error e))) c
              = Some (c\<lparr>inflight := take i (inflight c) @ drop (Suc i) (inflight c)\<rparr>))
       \<and> (error e \<noteq> ''authorization_pending'' \<longrightarrow>
            step (Response i (Failure (Error e))) c
              = Some (c\<lparr>inflight := take i (inflight c) @ drop (Suc i) (inflight c),
                        interval := None,
                        promise := Rejected (ErrorCode (error e))\<rparr>))
       \<and> step (Response i (TokenJson json)) c
              = Some (c\<lparr>inflight := take i (inflight c) @ drop (Suc i) (inflight c),
                        service := (service c)\<lparr>accessToken := Some (access_token json),
                                                 refreshToken := Some (refresh_token json),
                                                 expiresAt := expires_on json\<rparr>,
                        interval := None,
                        promise := Resolved (access_token json)\<rparr>)
       \<and> service c = service this"
proof -
  from run_timer_live [OF assms(2) ensureAccessToken_timer_live]
  have "timer_live c" .
  moreover from assms(3,4) have "list_ex (\<lambda>p. snd p = OnPoll) (inflight c)"
    by (auto simp: list_ex_iff)
  ultimately have "interval c \<noteq> None"
    using assms(5) by (simp add: timer_live_def)
  moreover from run_pending [OF assms(2,5)] have "service c = service this"
    by (simp add: ensureAccessToken_start)
  ultimately show ?thesis
    using assms(3-5) by (simp add: call_defs)
qed

theorem poll_response_witness:
  "interval (example_auth (disconnect example_store)) = None
   \<and> run [Response 0 (DeviceCodeJson example_device_code), Tick]
       (ensureAccessToken ''https://graph.example.com'' 1000
          (example_auth (disconnect example_store))) = Some example_polling
   \<and> interval example_polling = Some (Timer 5 ''https://graph.example.com'' ''abc'')
   \<and> step (Response 0 (Failure (Error authorization_pending))) example_polling
       = Some (example_polling\<lparr>inflight := []\<rparr>)
   \<and> step (Response 0 (Failure (Error code_expired))) example_polling
       = Some (example_polling\<lparr>inflight := [], interval := None,
                 promise := Rejected (ErrorCode ''code_expired'')\<rparr>)
   \<and> step (Response 0 (TokenJson example_token)) example_polling
       = Some (example_polling\<lparr>inflight := [],
                 service := (disconnect example_store)\<lparr>accessToken := Some ''AT1'',
                                refreshToken := Some ''RT2'', expiresAt := 4600\<rparr>,
                 interval := None, promise := Resolved ''AT1''\<rparr>)"
proof -
  have a: "interval (example_auth (disconnect example_store)) = None"
    by (simp add: example_auth_def)
  have r: "run [Response 0 (DeviceCodeJson example_device_code), Tick]
       (ensureAccessToken ''https://graph.example.com'' 1000
          (example_auth (disconnect example_store))) = Some example_polling"
    by (simp add: example_defs disconnect_def ensureAccessToken_def Let_def call_defs
        truthy_def)
  have i: "0 < length (inflight example_polling)"
    and k: "snd (inflight example_polling ! 0) = OnPoll"
    and p: "promise example_polling = Pending"
    by (simp_all add: example_polling_def)
  note facts = poll_response [OF a r i k p]
  have "step (Response 0 (Failure (Error authorization_pending))) example_polling
       = Some (example_polling\<lparr>inflight := []\<rparr>)"
    using facts [of authorization_pending]
    by (simp add: example_defs)
  moreover have "step (Response 0 (Failure (Error code_expired))) example_polling
       = Some (example_polling\<lparr>inflight := [], interval := None,
                 promise := Rejected (ErrorCode ''code_expired'')\<rparr>)"
    using facts [of code_expired]
    by (simp add: example_defs)
  moreover have "step (Response 0 (TokenJson example_token)) example_polling
       = Some (example_polling\<lparr>inflight := [],
                 service := (disconnect example_store)\<lparr>accessToken := Some ''AT1'',
                                refreshToken := Some ''RT2'', expiresAt := 4600\<rparr>,
                 interval := None, promise := Resolved ''AT1''\<rparr>)"
    using facts [of _ example_token]
    by (simp add: example_defs)
  moreover have "interval example_polling = Some (Timer 5 ''https://graph.example.com'' ''abc'')"
    by (simp add: example_polling_def)
  ultimately show ?thesis using a r by blast
qed

subsection \<open>getAccessToken\<close>

text \<open>
  In a detached call an event leaves the store alone and happens in the same way
  whatever the store holds.
\<close>

lemma respond_detached:
  assumes "respond OnGetAccessToken r c = Some c'"
  shows "service c' = service c \<and> interval c' = interval c
       \<and> inflight c' = inflight c
       \<and> respond OnGetAccessToken r (c\<lparr>service := s\<rparr>) = Some (c'\<lparr>service := s\<rparr>)"
  using assms
  by (cases "(OnGetAccessToken, r, c)" rule: respond.cases)
    (auto simp: call_defs split: if_splits)

lemma step_detached:
  assumes "step e c = Some c'" and "detached c"
  shows "detached c' \<and> service c' = service c
       \<and> step e (c\<lparr>service := s\<rparr>) = Some (c'\<lparr>service := s\<rparr>)"
proof (cases e)
  case Tick
  with assms show ?thesis by (simp add: detached_def)
next
  case (Response i r)
  let ?rest = "take i (inflight c) @ drop (Suc i) (inflight c)"
  from Response assms have i: "i < length (inflight c)"
    and r: "respond (snd (inflight c ! i)) r (c\<lparr>inflight := ?rest\<rparr>) = Some c'"
    by (auto split: if_splits)
  from assms(2) i have k: "snd (inflight c ! i) = OnGetAccessToken"
    by (simp add: detached_def list_all_length)
  note facts = respond_detached [OF r [unfolded k], of s]
  from assms(2) have "list_all (\<lambda>p. snd p = OnGetAccessToken) ?rest"
    unfolding detached_def by (intro list_all_remove) simp
  with facts assms(2) have "detached c'"
    by (simp add: detached_def)
  moreover from facts have "service c' = service c"
    by simp
  moreover have "step e (c\<lparr>service := s\<rparr>) = Some (c'\<lparr>service := s\<rparr>)"
  proof -
    have swap: "(c\<lparr>service := s\<rparr>)\<lparr>inflight := ?rest\<rparr> = (c\<lparr>inflight := ?rest\<rparr>)\<lparr>service := s\<rparr>"
      by simp
    from facts
    have "respond OnGetAccessToken r ((c\<lparr>service := s\<rparr>)\<lparr>inflight := ?rest\<rparr>)
        = Some (c'\<lparr>service := s\<rparr>)"
      unfolding swap by blast
    with i k show ?thesis by (simp add: Response)
  qed
  ultimately show ?thesis by simp
qed

lemma run_detached:
  "run evs c = Some c' \<Longrightarrow> detached c \<Longrightarrow>
     service c' = service c \<and> run evs (c\<lparr>service := s\<rparr>) = Some (c'\<lparr>service := s\<rparr>)"
proof (induction evs arbitrary: c)
  case Nil
  then show ?case by simp
next
  case (Cons e es)
  then obtain d where d: "step e c = Some d" "run es d = Some c'"
    by (auto split: option.splits)
  from step_detached [OF d(1) Cons.prems(2), of s] Cons.IH [OF d(2)] show ?case
    by simp
qed

text \<open>
  Claim C6 as stated, that \<open>getAccessToken\<close> rejects with the error code, fails. The
  rejection callback of \<open>getAccessToken\<close> is \<open>reject(err)\<close>, while the one of the
  refresh branch of \<open>ensureAccessToken\<close> is \<open>reject(json.error.error)\<close>. When the token
  endpoint answers \<open>invalid_grant\<close>, \<open>getAccessToken\<close> rejects with the whole payload and
  not with the code; \<open>ensureAccessToken\<close> on an expired store with a refresh token
  rejects with the code.
\<close>

theorem getAccessToken_error_code_counterexample:
  "map_option promise
     (run [Response 0 (Failure (Error invalid_grant))]
        (getAccessToken ''R'' ''RT1'' (example_auth example_store)))
     = Some (Rejected (ErrorObject (Error invalid_grant)))
   \<and> map_option promise
     (run [Response 0 (Failure (Error invalid_grant))]
        (getAccessToken ''R'' ''RT1'' (example_auth example_store)))
     \<noteq> Some (Rejected (ErrorCode ''invalid_grant''))
   \<and> map_option promise
     (run [Response 0 (Failure (Error invalid_grant))]
        (ensureAccessToken ''R'' 1000 (example_auth example_store)))
     = Some (Rejected (ErrorCode ''invalid_grant''))"
  by (simp add: getAccessToken_def ensureAccessToken_def Let_def truthy_def call_defs
      example_defs)

text \<open>
  Claim C6, amended. When the token endpoint rejects the request of \<open>getAccessToken\<close>,
  the promise is rejected with the rejection as it came, that is the full payload, from
  which the caller can read the code as \<open>err.error.error\<close>.
\<close>

theorem getAccessToken_rejects_with_payload:
  "map_option promise (run [Response 0 (Failure err)] (getAccessToken res rt this))
     = Some (Rejected (ErrorObject err))"
  by (simp add: getAccessToken_def call_defs)

theorem getAccessToken_rejects_with_payload_witness:
  "map_option promise
     (run [Response 0 (Failure (Error code_expired))]
        (getAccessToken ''https://graph.example.com'' ''RT9'' (example_auth example_store)))
     = Some (Rejected (ErrorObject (Error code_expired)))"
  by (rule getAccessToken_rejects_with_payload)

text \<open>
  Claim C7. On an \<open>Auth\<close> object with no timer running, for every resource, refresh token
  and store: in every state a call of \<open>getAccessToken\<close> can reach, resolved, rejected or
  pending, the store is the one before the call; the same events on an object with any
  other store \<open>s\<close> lead to the same state but for the store, so the call does not depend
  on the store; and when the request is fulfilled the promise is resolved with the
  \<open>access_token\<close> of the answer alone.
\<close>

theorem getAccessToken_frame:
  assumes "interval this = None"
    and "run evs (getAccessToken res rt this) = Some c"
  shows "service c = service this
       \<and> run evs (getAccessToken res rt (this\<lparr>service := s\<rparr>)) = Some (c\<lparr>service := s\<rparr>)
       \<and> (\<exists>c'. run [Response 0 (TokenJson json)] (getAccessToken res rt this) = Some c'
               \<and> promise c' = Resolved (access_token json)
               \<and> service c' = service this)"
proof -
  have d: "detached (getAccessToken res rt this)"
    using assms(1) by (simp add: detached_def getAccessToken_def call_defs)
  have "getAccessToken res rt (this\<lparr>service := s\<rparr>) = (getAccessToken res rt this)\<lparr>service := s\<rparr>"
    by (simp add: getAccessToken_def call_defs)
  with run_detached [OF assms(2) d, of s]
  have "service c = service this
      \<and> run evs (getAccessToken res rt (this\<lparr>service := s\<rparr>)) = Some (c\<lparr>service := s\<rparr>)"
    by (simp add: getAccessToken_def call_defs)
  moreover have "\<exists>c'. run [Response 0 (TokenJson json)] (getAccessToken res rt this) = Some c'
               \<and> promise c' = Resolved (access_token json)
               \<and> service c' = service this"
    by (simp add: getAccessToken_def call_defs)
  ultimately show ?thesis by blast
qed

theorem getAccessToken_frame_witness:
  "(\<exists>c. run [Response 0 (TokenJson example_token)]
            (getAccessToken ''R'' ''RT9'' (example_auth example_store)) = Some c
        \<and> promise c = Resolved ''AT1''
        \<and> service c = example_store
        \<and> run [Response 0 (TokenJson example_token)]
            (getAccessToken ''R'' ''RT9'' (example_auth (disconnect example_store)))
            = Some (c\<lparr>service := disconnect example_store\<rparr>))
   \<and> (\<exists>c. run [Response 0 (Failure (Error invalid_grant))]
            (getAccessToken ''R'' ''RT9'' (example_auth example_store)) = Some c
        \<and> service c = example_store)"
proof -
  let ?g = "getAccessToken ''R'' ''RT9'' (example_auth example_store)"
  have a: "interval (example_auth example_store) = None"
    by (simp add: example_defs)
  have same: "(example_auth example_store)\<lparr>service := disconnect example_store\<rparr>
      = example_auth (disconnect example_store)"
    by (simp add: example_defs)
  obtain c where c: "run [Response 0 (TokenJson example_token)] ?g = Some c"
    and p: "promise c = Resolved ''AT1''"
    by (simp add: getAccessToken_def call_defs example_defs)
  obtain c2 where c2: "run [Response 0 (Failure (Error invalid_grant))] ?g = Some c2"
    by (simp add: getAccessToken_def call_defs example_defs)
  have s: "service (example_auth example_store) = example_store"
    by (simp add: example_auth_def)
  from getAccessToken_frame [OF a c, of "disconnect example_store"]
  have "service c = example_store
      \<and> run [Response 0 (TokenJson example_token)]
            (getAccessToken ''R'' ''RT9'' (example_auth (disconnect example_store)))
            = Some (c\<lparr>service := disconnect example_store\<rparr>)"
    unfolding same s by blast
  moreover from getAccessToken_frame [OF a c2]
  have "service c2 = example_store"
    unfolding s by blast
  ultimately show ?thesis using c c2 p by blast
qed

end
